theory Spec2Isabelle
  imports
    Main
    "HOL-Library.FSet"
    "HOL-Library.List_Lexorder"
    "HOL-Library.Char_ord"
    "HOL-Library.Multiset"
begin

section \<open>Data model of \<open>DemEntities.tsx\<close>\<close>

text \<open>
  The records the decoding engine hands over (\<open>EntityLi\<close>, \<open>EntityFieldLi\<close> of
  \<open>haste-wasm\<close>). A path is a sequence of non-negative integers, hence \<open>nat list\<close>.
  The source's field \<open>value\<close> is called \<open>val\<close> here, \<open>value\<close> being reserved.
\<close>

record EntityLi =
  index :: nat
  name :: string

record EntityFieldLi =
  path :: "nat list"
  namedPath :: "string list"
  encodedAs :: string
  decodedAs :: string
  val :: string

text \<open>The element type of \<open>entityFieldList\<close> (the object literal of lines 438-442).\<close>

record WrappedEntityFieldLi =
  inner :: EntityFieldLi
  joinedPath :: string
  joinedNamedPath :: string

text \<open>\<open>ExportEntityField\<close> and \<open>ExportEntity\<close> (lines 57-69); fields prefixed \<open>ex\<close>
  where the name is already a field of the engine's records.\<close>

record ExportEntityField =
  exPath :: string
  pathSegments :: "nat list"
  exEncodedAs :: string
  exDecodedAs :: string
  exValue :: string

record ExportEntity =
  exIndex :: nat
  exName :: string
  exFields :: "ExportEntityField list"

text \<open>The two view modes held by \<open>demViewAtom\<close>.\<close>

datatype DemView = Entities | BaselineEntities

text \<open>
  The parser handle, as a snapshot at the current tick: each accessor may answer
  \<open>undefined\<close> (\<open>None\<close>), which the source guards with \<open>?.\<close> and \<open>??\<close>.
\<close>

record DemParser =
  listEntities :: "EntityLi list option"
  listBaselineEntities :: "EntityLi list option"
  listEntityFields :: "nat \<Rightarrow> EntityFieldLi list option"
  listBaselineEntityFields :: "nat \<Rightarrow> EntityFieldLi list option"

text \<open>The modifier keys of a \<open>React.MouseEvent\<close> that the handlers read.\<close>

record MouseEvent =
  shiftKey :: bool
  metaKey :: bool
  ctrlKey :: bool

text \<open>
  What \<open>EntityList\<close> holds when an export button is pressed: the atoms it reads and the
  filtered list kept by \<open>useState\<close>.
\<close>

record EntityListState =
  demParser :: "DemParser option"
  demView :: DemView
  demTick :: "int option"
  filteredEntityList :: "EntityLi list option"

text \<open>The object handed to \<open>JSON.stringify\<close> by \<open>handleExportAllJson\<close>.\<close>

record ExportPayload =
  tick :: "int option"
  view :: string
  entities :: "ExportEntity list"

text \<open>
  The state of \<open>EntityFieldList\<close> that the click handlers and effects read and write:
  the filtered list, the selection set (a JavaScript \<open>Set\<close> of strings, always finite),
  the anchor \<open>lastSelectedIndexRef.current\<close> and the shared selected-entity atom.
\<close>

record FieldListState =
  filteredEntityFieldList :: "WrappedEntityFieldLi list option"
  selectedFieldPaths :: "string fset"
  lastSelectedIndexRef :: "nat option"
  demSelectedEntityIndex :: "nat option"


section \<open>Strings\<close>

text \<open>\<open>Array.prototype.join\<close>.\<close>

fun join :: "string \<Rightarrow> string list \<Rightarrow> string" where
  "join sep [] = []"
| "join sep [x] = x"
| "join sep (x # y # ys) = x @ sep @ join sep (y # ys)"

text \<open>\<open>Number.prototype.toString\<close> on a non-negative integer: its decimal digits.\<close>

definition digitChar :: "nat \<Rightarrow> char" where
  "digitChar d = char_of (48 + d)"

function toString :: "nat \<Rightarrow> string" where
  "toString n = (if n < 10 then [digitChar n] else toString (n div 10) @ [digitChar (n mod 10)])"
  by pat_completeness auto
termination
  by (relation "measure (\<lambda>n. n)") auto

text \<open>\<open>String.prototype.padStart\<close> with a one-character filler.\<close>

definition padStart :: "nat \<Rightarrow> char \<Rightarrow> string \<Rightarrow> string" where
  "padStart w c s = replicate (w - length s) c @ s"

definition startsWith :: "string \<Rightarrow> string \<Rightarrow> bool" where
  "startsWith s p = (take (length p) s = p)"


section \<open>Normalize stage of the field pipeline (lines 415-462)\<close>

text \<open>The body of the \<open>map\<close> callback of lines 433-443.\<close>

definition wrapField :: "EntityFieldLi \<Rightarrow> WrappedEntityFieldLi" where
  "wrapField entityField =
     \<lparr> inner = entityField,
       joinedPath = concat (map (\<lambda>part. padStart 4 (CHR '' '') (toString part)) (path entityField)),
       joinedNamedPath = join ''.'' (namedPath entityField) \<rparr>"

text \<open>
  The comparator of lines 445-459. The \<open>for\<close> loop over \<open>i\<close> is the recursion; the
  subtraction is on JavaScript numbers, which is exact on these integers.
\<close>

function compareLoop :: "nat list \<Rightarrow> nat list \<Rightarrow> nat \<Rightarrow> int" where
  "compareLoop pa pb i =
     (if i < min (length pa) (length pb)
      then (if pa ! i \<noteq> pb ! i then int (pa ! i) - int (pb ! i)
            else compareLoop pa pb (Suc i))
      else int (length pa) - int (length pb))"
  by pat_completeness auto
termination
  by (relation "measure (\<lambda>(pa, pb, i). min (length pa) (length pb) - i)") auto

definition compareFields :: "WrappedEntityFieldLi \<Rightarrow> WrappedEntityFieldLi \<Rightarrow> int" where
  "compareFields a b = compareLoop (path (inner a)) (path (inner b)) 0"

text \<open>
  \<open>Array.prototype.sort\<close> with a comparator. ECMAScript requires the sort to be stable,
  so for a consistent comparator the result is the one stable sorted arrangement of the
  array; stable insertion sort computes that arrangement.
\<close>

fun insertBy :: "('a \<Rightarrow> 'a \<Rightarrow> int) \<Rightarrow> 'a \<Rightarrow> 'a list \<Rightarrow> 'a list" where
  "insertBy cmp x [] = [x]"
| "insertBy cmp x (y # ys) = (if cmp x y \<le> 0 then x # y # ys else y # insertBy cmp x ys)"

fun sortBy :: "('a \<Rightarrow> 'a \<Rightarrow> int) \<Rightarrow> 'a list \<Rightarrow> 'a list" where
  "sortBy cmp [] = []"
| "sortBy cmp (x # xs) = insertBy cmp x (sortBy cmp xs)"

text \<open>
  The \<open>useMemo\<close> of lines 415-462 (its \<open>joinedPathMaxLen\<close>, a column width, is left
  out): undefined when no entity is selected or the engine gives no list.
\<close>

definition entityFieldList ::
  "DemParser option \<Rightarrow> DemView \<Rightarrow> nat option \<Rightarrow> WrappedEntityFieldLi list option" where
  "entityFieldList parser v selectedIdx =
     (case selectedIdx of
        None \<Rightarrow> None
      | Some idx \<Rightarrow>
          (let tmpEntityFieldList =
                 (case parser of
                    None \<Rightarrow> None
                  | Some p \<Rightarrow>
                      (case v of
                         Entities \<Rightarrow> listEntityFields p idx
                       | BaselineEntities \<Rightarrow> listBaselineEntityFields p idx))
           in map_option (\<lambda>fs. sortBy compareFields (map wrapField fs)) tmpEntityFieldList))"


section \<open>Filter stage (lines 131-144 and 469-480)\<close>

definition handleFilterUpdateEntities ::
  "EntityLi list option \<Rightarrow> (string \<Rightarrow> bool) option \<Rightarrow> EntityLi list option" where
  "handleFilterUpdateEntities entries searchCmpFn =
     (case searchCmpFn of
        Some f \<Rightarrow> map_option (filter (\<lambda>entry. f (name entry))) entries
      | None \<Rightarrow> entries)"

definition handleFilterUpdate ::
  "WrappedEntityFieldLi list option \<Rightarrow> (string \<Rightarrow> bool) option
     \<Rightarrow> WrappedEntityFieldLi list option" where
  "handleFilterUpdate entries searchCmpFn =
     (case searchCmpFn of
        Some f \<Rightarrow> map_option (filter (\<lambda>entry. f (joinedNamedPath entry))) entries
      | None \<Rightarrow> entries)"


section \<open>Entity-list export (lines 180-259)\<close>

definition exportField :: "EntityFieldLi \<Rightarrow> ExportEntityField" where
  "exportField field =
     \<lparr> exPath = join ''.'' (namedPath field),
       pathSegments = path field,
       exEncodedAs = encodedAs field,
       exDecodedAs = decodedAs field,
       exValue = val field \<rparr>"

definition collectEntitiesForExport :: "DemParser option \<Rightarrow> bool \<Rightarrow> ExportEntity list" where
  "collectEntitiesForExport parser isBaselineView =
     (case parser of
        None \<Rightarrow> []
      | Some p \<Rightarrow>
          (let listEnts = (if isBaselineView then listBaselineEntities p else listEntities p);
               listFields = (if isBaselineView then listBaselineEntityFields p
                             else listEntityFields p)
           in case listEnts of
                None \<Rightarrow> []
              | Some ents \<Rightarrow>
                  if length ents = 0 then []
                  else map (\<lambda>entity.
                         \<lparr> exIndex = index entity,
                           exName = name entity,
                           exFields = map exportField
                             (case listFields (index entity) of None \<Rightarrow> [] | Some fs \<Rightarrow> fs) \<rparr>)
                       ents))"

text \<open>
  \<open>handleExportAllJson\<close>: \<open>None\<close> when the handler returns without a download, else the
  payload that is serialised. The handler reads the parser, the view and the tick; the
  filtered list is part of the component's state and is passed along with it.
\<close>

definition handleExportAllJson :: "EntityListState \<Rightarrow> ExportPayload option" where
  "handleExportAllJson st =
     (let isBaselineView = (demView st = BaselineEntities);
          entitiesForExport = collectEntitiesForExport (demParser st) isBaselineView
      in if length entitiesForExport = 0 then None
         else Some \<lparr> tick = demTick st,
                     view = (if isBaselineView then ''baselineEntities'' else ''entities''),
                     entities = entitiesForExport \<rparr>)"


section \<open>Selection of field rows (lines 497-535 and 594-634)\<close>

text \<open>The effect of lines 502-505, run when the selected entity or the view changes.\<close>

definition resetEffect :: "FieldListState \<Rightarrow> FieldListState" where
  "resetEffect st =
     st\<lparr> lastSelectedIndexRef := None,
         selectedFieldPaths :=
           (if fcard (selectedFieldPaths st) \<noteq> 0 then {||} else selectedFieldPaths st) \<rparr>"

text \<open>
  The updater of lines 518-534: \<open>changed\<close> is set when some member of \<open>prev\<close> is not
  among the available paths, \<open>next\<close> collects the members that are.
\<close>

definition pruneUpdater :: "string fset \<Rightarrow> string fset \<Rightarrow> string fset" where
  "pruneUpdater availablePaths prev =
     (if fcard prev = 0 then prev
      else (let changed = (\<not> prev |\<subseteq>| availablePaths);
                next = ffilter (\<lambda>p. p |\<in>| availablePaths) prev
            in if changed then next else prev))"

text \<open>The effect of lines 507-535, run when the filtered list changes.\<close>

definition pruneEffect :: "FieldListState \<Rightarrow> FieldListState" where
  "pruneEffect st =
     (case filteredEntityFieldList st of
        None \<Rightarrow>
          st\<lparr> lastSelectedIndexRef := None,
              selectedFieldPaths :=
                (if fcard (selectedFieldPaths st) \<noteq> 0 then {||} else selectedFieldPaths st) \<rparr>
      | Some l \<Rightarrow>
          if length l = 0 then
            st\<lparr> lastSelectedIndexRef := None,
                selectedFieldPaths :=
                  (if fcard (selectedFieldPaths st) \<noteq> 0 then {||} else selectedFieldPaths st) \<rparr>
          else
            st\<lparr> selectedFieldPaths :=
                  pruneUpdater (fset_of_list (map joinedNamedPath l)) (selectedFieldPaths st) \<rparr>)"

text \<open>
  The \<open>for\<close> loop of lines 605-610: \<open>i\<close> runs from \<open>start\<close> to \<open>end\<close> inclusive, and
  an index with no list item (\<open>filteredEntityFieldList[i]\<close> undefined) adds nothing.
\<close>

function rangeLoop ::
  "WrappedEntityFieldLi list \<Rightarrow> nat \<Rightarrow> nat \<Rightarrow> string fset \<Rightarrow> string fset" where
  "rangeLoop l i e next =
     (if i \<le> e
      then rangeLoop l (Suc i) e
             (if i < length l then finsert (joinedNamedPath (l ! i)) next else next)
      else next)"
  by pat_completeness auto
termination
  by (relation "measure (\<lambda>(l, i, e, next). Suc e - i)") auto

text \<open>
  The updater passed to \<open>setSelectedFieldPaths\<close> (lines 600-629); \<open>anchor\<close> is
  \<open>lastSelectedIndexRef.current\<close> as the updater reads it. The first test of the source,
  shift held and the anchor defined, is the case distinction: the range branch is taken
  exactly when it yields \<open>Some a\<close>.
\<close>

definition selectionUpdater ::
  "WrappedEntityFieldLi list \<Rightarrow> MouseEvent \<Rightarrow> nat option \<Rightarrow> nat \<Rightarrow> string
     \<Rightarrow> string fset \<Rightarrow> string fset" where
  "selectionUpdater l event anchor itemIndex p prev =
     (case (if shiftKey event then anchor else None) of
        Some a \<Rightarrow> rangeLoop l (min a itemIndex) (max a itemIndex) {||}
      | None \<Rightarrow>
          if metaKey event \<or> ctrlKey event then
            (if p |\<in>| prev then prev |-| {|p|} else finsert p prev)
          else if fcard prev = 1 \<and> p |\<in>| prev then prev
          else {|p|})"

text \<open>
  When the updater runs is React's choice, not the component's. React may compute the new
  state inside the call of \<open>setSelectedFieldPaths\<close> (\<open>Eager\<close>: no update is pending on
  the component), which is before line 631; or it queues the updater and runs it at the
  next render (\<open>Queued\<close>), which is after line 631 has stored the clicked index in the
  ref. The closure reads \<open>lastSelectedIndexRef.current\<close> when it runs, so it sees the
  anchor of before the click in the first case and the clicked index in the second.
\<close>

datatype UpdaterTiming = Eager | Queued

text \<open>
  \<open>updateSelection\<close> (lines 594-634): the guard on an empty or undefined filtered list,
  the call of \<open>setSelectedFieldPaths\<close> with the updater, and the assignment
  \<open>lastSelectedIndexRef.current = itemIndex\<close> of line 631. The result is the state once
  the updater has run; \<open>refAtUpdater\<close> is the value of the ref that it reads.
\<close>

definition updateSelection ::
  "UpdaterTiming \<Rightarrow> MouseEvent \<Rightarrow> nat \<Rightarrow> string \<Rightarrow> FieldListState \<Rightarrow> FieldListState" where
  "updateSelection timing event itemIndex p st =
     (case filteredEntityFieldList st of
        None \<Rightarrow> st
      | Some l \<Rightarrow>
          if length l = 0 then st
          else (let refAtUpdater =
                      (case timing of
                         Eager \<Rightarrow> lastSelectedIndexRef st
                       | Queued \<Rightarrow> Some itemIndex)
                in st\<lparr> selectedFieldPaths :=
                          selectionUpdater l event refAtUpdater itemIndex p
                            (selectedFieldPaths st),
                        lastSelectedIndexRef := Some itemIndex \<rparr>))"


section \<open>Handle navigation (lines 636-657 and 761-791)\<close>

text \<open>
  \<open>linkedEntIdx\<close> of a rendered row (lines 761-767). The engine's \<open>isEHandleValid\<close>
  and \<open>eHandleToIndex\<close> and the conversion \<open>+value\<close> of a string to a number are
  parameters.
\<close>

definition linkedEntIdx ::
  "(string \<Rightarrow> 'n) \<Rightarrow> ('n \<Rightarrow> bool) \<Rightarrow> ('n \<Rightarrow> nat) \<Rightarrow> WrappedEntityFieldLi \<Rightarrow> nat option" where
  "linkedEntIdx toNumber isEHandleValid eHandleToIndex entityFieldItem =
     (let handle = startsWith (encodedAs (inner entityFieldItem)) ''CHandle'';
          handleValid = (handle \<and> isEHandleValid (toNumber (val (inner entityFieldItem))))
      in if handleValid then Some (eHandleToIndex (toNumber (val (inner entityFieldItem))))
         else None)"

definition handleFieldClick ::
  "UpdaterTiming \<Rightarrow> MouseEvent \<Rightarrow> nat \<Rightarrow> nat option \<Rightarrow> string
     \<Rightarrow> FieldListState \<Rightarrow> FieldListState" where
  "handleFieldClick timing event itemIndex linkedEntityIndex p st =
     (let st1 = updateSelection timing event itemIndex p st
      in if linkedEntityIndex \<noteq> None \<and> \<not> metaKey event \<and> \<not> ctrlKey event \<and> \<not> shiftKey event
         then st1\<lparr> demSelectedEntityIndex :=
                    (if demSelectedEntityIndex st1 = linkedEntityIndex then None
                     else linkedEntityIndex) \<rparr>
         else st1)"

text \<open>
  The \<open>onClick\<close> of the row rendered for index \<open>i\<close> (lines 784-791). Rows exist only for
  indices of the filtered list; with no such row there is nothing to click.
\<close>

definition onRowClick ::
  "(string \<Rightarrow> 'n) \<Rightarrow> ('n \<Rightarrow> bool) \<Rightarrow> ('n \<Rightarrow> nat) \<Rightarrow> UpdaterTiming \<Rightarrow> MouseEvent \<Rightarrow> nat
     \<Rightarrow> FieldListState \<Rightarrow> FieldListState" where
  "onRowClick toNumber isEHandleValid eHandleToIndex timing event i st =
     (case filteredEntityFieldList st of
        None \<Rightarrow> st
      | Some l \<Rightarrow>
          if i < length l then
            handleFieldClick timing event i
              (linkedEntIdx toNumber isEHandleValid eHandleToIndex (l ! i))
              (joinedNamedPath (l ! i)) st
          else st)"


section \<open>Field-list export (lines 537-551 and 659-674)\<close>

definition selectedFields ::
  "WrappedEntityFieldLi list option \<Rightarrow> string fset \<Rightarrow> WrappedEntityFieldLi list" where
  "selectedFields fl sel =
     (case fl of
        None \<Rightarrow> []
      | Some l \<Rightarrow>
          if fcard sel = 0 then []
          else filter (\<lambda>item. joinedNamedPath item |\<in>| sel) l)"

definition visibleFields :: "WrappedEntityFieldLi list option \<Rightarrow> WrappedEntityFieldLi list" where
  "visibleFields fl = (case fl of None \<Rightarrow> [] | Some l \<Rightarrow> l)"

definition exportableFields :: "FieldListState \<Rightarrow> WrappedEntityFieldLi list" where
  "exportableFields st =
     (let sf = selectedFields (filteredEntityFieldList st) (selectedFieldPaths st)
      in if length sf > 0 then sf else visibleFields (filteredEntityFieldList st))"

definition rawLine :: "WrappedEntityFieldLi \<Rightarrow> string" where
  "rawLine field = joinedNamedPath field @ '': '' @ val (inner field)"

text \<open>
  \<open>handleExportRaw\<close>: \<open>None\<close> when the handler returns without a download, else the
  text of the downloaded file (the lines joined by a line feed, and one more at the end).
\<close>

definition handleExportRaw :: "FieldListState \<Rightarrow> string option" where
  "handleExportRaw st =
     (if length (exportableFields st) = 0 then None
      else Some (join [CHR 0x0A] (map rawLine (exportableFields st)) @ [CHR 0x0A]))"


section \<open>Order of the displayed list, and example data\<close>

text \<open>A list is in display order when the comparator never puts a later element first.\<close>

definition fieldsSorted :: "WrappedEntityFieldLi list \<Rightarrow> bool" where
  "fieldsSorted xs = sorted_wrt (\<lambda>a b. compareFields a b \<le> 0) xs"

text \<open>The field and the entities of the scenario of the specification, and two more fields.\<close>

definition exampleFieldX :: EntityFieldLi where
  "exampleFieldX = \<lparr> path = [0], namedPath = [''x''], encodedAs = ''int32'', decodedAs = ''int'', val = ''5'' \<rparr>"

definition exampleFieldAB :: EntityFieldLi where
  "exampleFieldAB = \<lparr> path = [0, 1], namedPath = [''a'', ''b''], encodedAs = ''CHandle'', decodedAs = ''u32'', val = ''42'' \<rparr>"

definition exampleFieldCD :: EntityFieldLi where
  "exampleFieldCD = \<lparr> path = [2, 10], namedPath = [''c'', ''d''], encodedAs = ''bool'', decodedAs = ''bool'', val = ''true'' \<rparr>"

definition exampleParser :: DemParser where
  "exampleParser =
     \<lparr> listEntities = Some [\<lparr> index = 0, name = ''A'' \<rparr>, \<lparr> index = 1, name = ''B'' \<rparr>],
       listBaselineEntities = Some [\<lparr> index = 0, name = ''A'' \<rparr>],
       listEntityFields =
         (\<lambda>i. if i = 1 then Some [exampleFieldCD, exampleFieldAB, exampleFieldX] else None),
       listBaselineEntityFields = (\<lambda>i. if i = 0 then Some [exampleFieldX] else None) \<rparr>"

text \<open>A state of the field list showing the three example fields, and two clicks.\<close>

definition exampleState :: FieldListState where
  "exampleState =
     \<lparr> filteredEntityFieldList =
         Some [wrapField exampleFieldX, wrapField exampleFieldAB, wrapField exampleFieldCD],
       selectedFieldPaths = {|''x''|},
       lastSelectedIndexRef = Some 0,
       demSelectedEntityIndex = Some 1 \<rparr>"

definition plainClick :: MouseEvent where
  "plainClick = \<lparr> shiftKey = False, metaKey = False, ctrlKey = False \<rparr>"

definition shiftClick :: MouseEvent where
  "shiftClick = \<lparr> shiftKey = True, metaKey = False, ctrlKey = False \<rparr>"

definition exampleEntityListState :: EntityListState where
  "exampleEntityListState =
     \<lparr> demParser = Some exampleParser, demView = Entities, demTick = Some 7,
       filteredEntityList = Some [\<lparr> index = 1, name = ''B'' \<rparr>] \<rparr>"

text \<open>A stand-in for the conversion of a field's text to a number, for the examples.\<close>

definition exampleToNumber :: "string \<Rightarrow> nat" where
  "exampleToNumber s = (if s = ''42'' then 42 else 0)"


section \<open>The path column as a key\<close>

text \<open>The string \<open>joinedPath\<close> that the \<open>map\<close> callback builds, as a function of the path.\<close>

definition pathKey :: "nat list \<Rightarrow> string" where
  "pathKey p = concat (map (\<lambda>part. padStart 4 (CHR '' '') (toString part)) p)"

text \<open>
  The sort key in the words of the specification: each path integer padded with zeros to
  four characters. It is compared with \<open>joinedPath\<close> below.
\<close>

definition specSortKey :: "nat list \<Rightarrow> string" where
  "specSortKey p = concat (map (\<lambda>part. padStart 4 (CHR ''0'') (toString part)) p)"

text \<open>
  A number padded with blanks to a given width, zero being all blanks: the leading part of
  a padded number once its last digit is taken off. Used in the proofs about \<open>pathKey\<close>.
\<close>

definition blankPadded :: "nat \<Rightarrow> nat \<Rightarrow> string" where
  "blankPadded w k = (if k = 0 then replicate w (CHR '' '') else padStart w (CHR '' '') (toString k))"


section \<open>The comparator is the lexicographic order of paths\<close>

declare compareLoop.simps [simp del]

lemma Nil_less_iff: "([] < ys) = (ys \<noteq> [])" for ys :: "nat list"
  by (cases ys) simp_all

lemma compareLoop_less:
  "i \<le> length pa \<Longrightarrow> i \<le> length pb \<Longrightarrow> (compareLoop pa pb i < 0) = (drop i pa < drop i pb)"
proof (induction pa pb i rule: compareLoop.induct)
  case (1 pa pb i)
  show ?case
  proof (cases "i < min (length pa) (length pb)")
    case True
    then have a: "drop i pa = pa ! i # drop (Suc i) pa" and b: "drop i pb = pb ! i # drop (Suc i) pb"
      by (simp_all add: Cons_nth_drop_Suc)
    show ?thesis
    proof (cases "pa ! i = pb ! i")
      case same: True
      with True 1 show ?thesis
        by (subst compareLoop.simps) (simp add: a b)
    next
      case False
      with True show ?thesis
        by (subst compareLoop.simps) (auto simp add: a b)
    qed
  next
    case False
    with 1(2,3) have "i = length pa \<or> i = length pb" by auto
    then have "(drop i pa < drop i pb) = (length pa < length pb)"
      using 1(2,3) by (auto simp: Nil_less_iff)
    moreover have "compareLoop pa pb i = int (length pa) - int (length pb)"
      by (subst compareLoop.simps) (simp only: False if_False)
    ultimately show ?thesis by simp
  qed
qed

lemma compareLoop_zero:
  "i \<le> length pa \<Longrightarrow> i \<le> length pb \<Longrightarrow> (compareLoop pa pb i = 0) = (drop i pa = drop i pb)"
proof (induction pa pb i rule: compareLoop.induct)
  case (1 pa pb i)
  show ?case
  proof (cases "i < min (length pa) (length pb)")
    case True
    then have a: "drop i pa = pa ! i # drop (Suc i) pa" and b: "drop i pb = pb ! i # drop (Suc i) pb"
      by (simp_all add: Cons_nth_drop_Suc)
    show ?thesis
    proof (cases "pa ! i = pb ! i")
      case same: True
      with True 1 show ?thesis
        by (subst compareLoop.simps) (simp add: a b)
    next
      case False
      with True show ?thesis
        by (subst compareLoop.simps) (auto simp add: a b)
    qed
  next
    case False
    with 1(2,3) have "i = length pa \<or> i = length pb" by auto
    then have "(drop i pa = drop i pb) = (length pa = length pb)"
      using 1(2,3) by auto
    moreover have "compareLoop pa pb i = int (length pa) - int (length pb)"
      by (subst compareLoop.simps) (simp only: False if_False)
    ultimately show ?thesis by simp
  qed
qed

lemma compareFields_less: "(compareFields a b < 0) = (path (inner a) < path (inner b))"
  using compareLoop_less [of 0 "path (inner a)" "path (inner b)"] by (simp add: compareFields_def)

lemma compareFields_zero: "(compareFields a b = 0) = (path (inner a) = path (inner b))"
  using compareLoop_zero [of 0 "path (inner a)" "path (inner b)"] by (simp add: compareFields_def)

lemma compareFields_le: "(compareFields a b \<le> 0) = (path (inner a) \<le> path (inner b))"
  using compareFields_less [of a b] compareFields_zero [of a b] by (auto simp: order_le_less)

lemma insertBy_insort_key:
  "insertBy compareFields x ys = insort_key (\<lambda>f. path (inner f)) x ys"
  by (induction ys) (simp_all add: compareFields_le)

lemma sortBy_sort_key: "sortBy compareFields xs = sort_key (\<lambda>f. path (inner f)) xs"
  by (induction xs) (simp_all add: insertBy_insort_key)

lemma sorted_wrt_compareFields:
  "sorted_wrt (\<lambda>a b. compareFields a b \<le> 0) xs = sorted (map (\<lambda>f. path (inner f)) xs)"
  by (simp add: compareFields_le sorted_wrt_map)

lemma sortBy_sorted_id:
  "sorted_wrt (\<lambda>a b. cmp a b \<le> 0) xs \<Longrightarrow> sortBy cmp xs = xs"
proof (induction xs)
  case Nil
  then show ?case by simp
next
  case (Cons x xs)
  then show ?case by (cases xs) auto
qed

lemma sortBy_sorted: "fieldsSorted (sortBy compareFields xs)"
  by (simp add: fieldsSorted_def sorted_wrt_compareFields sortBy_sort_key)

lemma pipeline_sorted:
  "handleFilterUpdate (entityFieldList parser v idx) searchCmpFn = Some l \<Longrightarrow> fieldsSorted l"
  using sortBy_sorted
  by (auto simp: handleFilterUpdate_def entityFieldList_def fieldsSorted_def Let_def
      sorted_wrt_filter split: option.splits)

text \<open>
  Claim C1. The comparator of the sort is a total order on paths: it is negative, zero or
  positive exactly as the first path is below, equal to or above the second in the
  lexicographic order of lists of numbers, in which a proper prefix comes first
  (\<open>HOL-Library.List_Lexorder\<close>). Sorting gives a list in display order with the same
  elements; sorting it again, or sorting any list already in display order, changes
  nothing; and the list the field pipeline displays (the sorted list, filtered) is in
  display order.
\<close>

theorem field_sort_total_order:
  "((compareFields a b < 0) = (path (inner a) < path (inner b)))
   \<and> ((compareFields a b = 0) = (path (inner a) = path (inner b)))
   \<and> ((0 < compareFields a b) = (path (inner b) < path (inner a)))
   \<and> fieldsSorted (sortBy compareFields xs)
   \<and> mset (sortBy compareFields xs) = mset xs
   \<and> sortBy compareFields (sortBy compareFields xs) = sortBy compareFields xs
   \<and> (fieldsSorted xs \<longrightarrow> sortBy compareFields xs = xs)
   \<and> (handleFilterUpdate (entityFieldList parser v idx) searchCmpFn = Some l \<longrightarrow> fieldsSorted l)"
proof -
  have gt: "(0 < compareFields a b) = (path (inner b) < path (inner a))"
    using compareFields_le [of a b] by auto
  have ms: "mset (sortBy compareFields xs) = mset xs"
    by (simp add: sortBy_sort_key)
  have idem: "sortBy compareFields (sortBy compareFields xs) = sortBy compareFields xs"
    using sortBy_sorted [of xs] by (simp add: fieldsSorted_def sortBy_sorted_id)
  have fixd: "fieldsSorted xs \<longrightarrow> sortBy compareFields xs = xs"
    by (simp add: fieldsSorted_def sortBy_sorted_id)
  show ?thesis
    using compareFields_less [of a b] compareFields_zero [of a b] gt sortBy_sorted [of xs] ms idem fixd
      pipeline_sorted [of parser v idx searchCmpFn l]
    by blast
qed

theorem field_sort_total_order_witness:
  "fieldsSorted [wrapField exampleFieldX, wrapField exampleFieldAB, wrapField exampleFieldCD]
   \<and> sortBy compareFields [wrapField exampleFieldX, wrapField exampleFieldAB, wrapField exampleFieldCD]
       = [wrapField exampleFieldX, wrapField exampleFieldAB, wrapField exampleFieldCD]
   \<and> handleFilterUpdate (entityFieldList (Some exampleParser) Entities (Some 1)) None
       = Some [wrapField exampleFieldX, wrapField exampleFieldAB, wrapField exampleFieldCD]
   \<and> compareFields (wrapField exampleFieldX) (wrapField exampleFieldAB) < 0"
proof -
  let ?xs = "[wrapField exampleFieldX, wrapField exampleFieldAB, wrapField exampleFieldCD]"
  have r: "handleFilterUpdate (entityFieldList (Some exampleParser) Entities (Some 1)) None = Some ?xs"
    by (simp add: handleFilterUpdate_def entityFieldList_def exampleParser_def
        compareFields_def compareLoop.simps wrapField_def
        exampleFieldX_def exampleFieldAB_def exampleFieldCD_def)
  have p: "path (inner (wrapField exampleFieldX)) < path (inner (wrapField exampleFieldAB))"
    by (simp add: wrapField_def exampleFieldX_def exampleFieldAB_def)
  from r p field_sort_total_order [of "wrapField exampleFieldX" "wrapField exampleFieldAB" ?xs
      "Some exampleParser" Entities "Some 1" None ?xs]
  show ?thesis by blast
qed


section \<open>Entity-list export\<close>

text \<open>
  Claim C2. When the source stage lists at least one entity, the JSON export holds exactly
  the listed entities, in the engine's order and as many as were listed, each with its
  index, its name and the full field list fetched for it at export time (an absent field
  list counting as empty): every fetched field, in the engine's order, with its dotted
  name, its path, its two type tags and its value. Whatever the filtered entity list is,
  the export is the same. The selection of field rows belongs to the other component and
  is no input of the handler.
\<close>

theorem entity_export_all_entities:
  assumes "demParser st = Some p"
    and "(if demView st = BaselineEntities then listBaselineEntities p else listEntities p) = Some ents"
    and "ents \<noteq> []"
  shows "handleExportAllJson (st\<lparr> filteredEntityList := fl \<rparr>) = handleExportAllJson st
         \<and> map_option entities (handleExportAllJson st) =
             Some (map (\<lambda>entity.
                     \<lparr> exIndex = index entity,
                       exName = name entity,
                       exFields =
                         map (\<lambda>field.
                                \<lparr> exPath = join ''.'' (namedPath field),
                                  pathSegments = path field,
                                  exEncodedAs = encodedAs field,
                                  exDecodedAs = decodedAs field,
                                  exValue = val field \<rparr>)
                           (case (if demView st = BaselineEntities then listBaselineEntityFields p
                                  else listEntityFields p) (index entity)
                            of None \<Rightarrow> [] | Some fs \<Rightarrow> fs) \<rparr>) ents)
         \<and> map_option (\<lambda>payload. length (entities payload)) (handleExportAllJson st) =
             Some (length ents)"
proof -
  have f: "exportField = (\<lambda>field.
      \<lparr> exPath = join ''.'' (namedPath field),
        pathSegments = path field,
        exEncodedAs = encodedAs field,
        exDecodedAs = decodedAs field,
        exValue = val field \<rparr>)"
    by (rule ext) (simp add: exportField_def)
  from assms show ?thesis
    by (simp add: handleExportAllJson_def collectEntitiesForExport_def Let_def f)
qed

theorem entity_export_all_entities_witness:
  "handleExportAllJson (exampleEntityListState\<lparr> filteredEntityList := Some [] \<rparr>)
     = handleExportAllJson exampleEntityListState
   \<and> map_option entities (handleExportAllJson exampleEntityListState)
       = Some [\<lparr> exIndex = 0, exName = ''A'', exFields = [] \<rparr>,
               \<lparr> exIndex = 1, exName = ''B'',
                 exFields =
                   [\<lparr> exPath = ''c.d'', pathSegments = [2, 10], exEncodedAs = ''bool'',
                      exDecodedAs = ''bool'', exValue = ''true'' \<rparr>,
                    \<lparr> exPath = ''a.b'', pathSegments = [0, 1], exEncodedAs = ''CHandle'',
                      exDecodedAs = ''u32'', exValue = ''42'' \<rparr>,
                    \<lparr> exPath = ''x'', pathSegments = [0], exEncodedAs = ''int32'',
                      exDecodedAs = ''int'', exValue = ''5'' \<rparr>] \<rparr>]
   \<and> map_option (\<lambda>payload. length (entities payload)) (handleExportAllJson exampleEntityListState)
       = Some 2"
proof -
  let ?ents = "[\<lparr> index = 0, name = ''A'' \<rparr>, \<lparr> index = 1, name = ''B'' \<rparr>]"
  let ?fetch = "\<lambda>entity. case (if demView exampleEntityListState = BaselineEntities
                                then listBaselineEntityFields exampleParser
                                else listEntityFields exampleParser) (index entity)
                          of None \<Rightarrow> [] | Some fs \<Rightarrow> fs"
  let ?out = "\<lambda>field.
                \<lparr> exPath = join ''.'' (namedPath field),
                  pathSegments = path field,
                  exEncodedAs = encodedAs field,
                  exDecodedAs = decodedAs field,
                  exValue = val field \<rparr>"
  have h: "demParser exampleEntityListState = Some exampleParser"
    "(if demView exampleEntityListState = BaselineEntities then listBaselineEntities exampleParser
      else listEntities exampleParser) = Some ?ents"
    "?ents \<noteq> []"
    by (simp_all add: exampleEntityListState_def exampleParser_def)
  note t = entity_export_all_entities [OF h, of "Some []"]
  from t have a: "handleExportAllJson (exampleEntityListState\<lparr> filteredEntityList := Some [] \<rparr>)
     = handleExportAllJson exampleEntityListState" by (rule conjunct1)
  from t have "map_option entities (handleExportAllJson exampleEntityListState) =
      Some (map (\<lambda>entity.
              \<lparr> exIndex = index entity, exName = name entity,
                exFields = map ?out (?fetch entity) \<rparr>) ?ents)"
    by blast
  then have b: "map_option entities (handleExportAllJson exampleEntityListState)
       = Some [\<lparr> exIndex = 0, exName = ''A'', exFields = [] \<rparr>,
               \<lparr> exIndex = 1, exName = ''B'',
                 exFields =
                   [\<lparr> exPath = ''c.d'', pathSegments = [2, 10], exEncodedAs = ''bool'',
                      exDecodedAs = ''bool'', exValue = ''true'' \<rparr>,
                    \<lparr> exPath = ''a.b'', pathSegments = [0, 1], exEncodedAs = ''CHandle'',
                      exDecodedAs = ''u32'', exValue = ''42'' \<rparr>,
                    \<lparr> exPath = ''x'', pathSegments = [0], exEncodedAs = ''int32'',
                      exDecodedAs = ''int'', exValue = ''5'' \<rparr>] \<rparr>]"
    by (simp add: exampleEntityListState_def exampleParser_def
        exampleFieldCD_def exampleFieldAB_def exampleFieldX_def)
  from t have "map_option (\<lambda>payload. length (entities payload)) (handleExportAllJson exampleEntityListState)
       = Some (length ?ents)" by blast
  moreover have "length ?ents = 2" by simp
  ultimately have c: "map_option (\<lambda>payload. length (entities payload)) (handleExportAllJson exampleEntityListState)
       = Some 2" by (simp only:)
  from a b c show ?thesis by blast
qed


section \<open>Clicks on field rows\<close>

declare rangeLoop.simps [simp del]

lemma range_indices_split:
  "i \<le> e \<Longrightarrow>
   {k. i \<le> k \<and> k \<le> e \<and> k < n} = (if i < n then {i} else {}) \<union> {k. Suc i \<le> k \<and> k \<le> e \<and> k < n}"
  by (rule set_eqI) (simp, arith)

lemma rangeLoop_image:
  "fset (rangeLoop l i e next) =
     fset next \<union> (\<lambda>k. joinedNamedPath (l ! k)) ` {k. i \<le> k \<and> k \<le> e \<and> k < length l}"
proof (induction l i e "next" rule: rangeLoop.induct)
  case (1 l i e nxt)
  show ?case
  proof (cases "i \<le> e")
    case True
    have "fset (rangeLoop l i e nxt) =
        fset (rangeLoop l (Suc i) e
          (if i < length l then finsert (joinedNamedPath (l ! i)) nxt else nxt))"
      by (subst rangeLoop.simps) (simp only: True if_True)
    also have "\<dots> = fset (if i < length l then finsert (joinedNamedPath (l ! i)) nxt else nxt) \<union>
        (\<lambda>k. joinedNamedPath (l ! k)) ` {k. Suc i \<le> k \<and> k \<le> e \<and> k < length l}"
      using 1 [OF True] .
    also have "\<dots> = fset nxt \<union>
        (\<lambda>k. joinedNamedPath (l ! k)) `
          ((if i < length l then {i} else {}) \<union> {k. Suc i \<le> k \<and> k \<le> e \<and> k < length l})"
      by (cases "i < length l") (simp_all add: image_Un)
    finally show ?thesis
      by (simp only: range_indices_split [OF True])
  next
    case False
    have r: "rangeLoop l i e nxt = nxt"
      by (subst rangeLoop.simps) (simp only: False if_False)
    from False have e: "{k. i \<le> k \<and> k \<le> e \<and> k < length l} = {}"
      by auto
    show ?thesis
      unfolding r e by simp
  qed
qed

lemma rangeLoop_fset:
  "fset (rangeLoop l i e next) =
     fset next \<union> {joinedNamedPath (l ! k) | k. i \<le> k \<and> k \<le> e \<and> k < length l}"
  unfolding rangeLoop_image by blast

lemma rangeLoop_rows:
  assumes "a < length l" and "i < length l"
  shows "fset (rangeLoop l (min a i) (max a i) {||}) =
           {joinedNamedPath (l ! k) | k. min a i \<le> k \<and> k \<le> max a i}"
proof -
  have "\<And>k. k \<le> max a i \<Longrightarrow> k < length l"
    using assms by auto
  then have "{joinedNamedPath (l ! k) | k. min a i \<le> k \<and> k \<le> max a i \<and> k < length l} =
      {joinedNamedPath (l ! k) | k. min a i \<le> k \<and> k \<le> max a i}"
    by blast
  then show ?thesis
    by (simp add: rangeLoop_fset)
qed

lemma rangeLoop_single:
  assumes "i < length l"
  shows "rangeLoop l i i {||} = {|joinedNamedPath (l ! i)|}"
proof -
  have "{k. i \<le> k \<and> k \<le> i \<and> k < length l} = {i}"
    using assms by auto
  then have "fset (rangeLoop l i i {||}) = fset {|joinedNamedPath (l ! i)|}"
    by (simp add: rangeLoop_image)
  then show ?thesis by (simp only: fset_inject)
qed

lemma updateSelection_eager_shift_anchor:
  assumes "filteredEntityFieldList st = Some l" and "l \<noteq> []"
    and "shiftKey ev" and "lastSelectedIndexRef st = Some a"
  shows "updateSelection Eager ev i p st =
           st\<lparr> selectedFieldPaths := rangeLoop l (min a i) (max a i) {||},
               lastSelectedIndexRef := Some i \<rparr>"
  using assms by (simp add: updateSelection_def selectionUpdater_def)

lemma updateSelection_queued_shift:
  assumes "filteredEntityFieldList st = Some l" and "l \<noteq> []" and "shiftKey ev"
  shows "updateSelection Queued ev i p st =
           st\<lparr> selectedFieldPaths := rangeLoop l i i {||},
               lastSelectedIndexRef := Some i \<rparr>"
  using assms by (simp add: updateSelection_def selectionUpdater_def)

lemma updateSelection_no_range:
  assumes "filteredEntityFieldList st = Some l" and "l \<noteq> []"
    and "\<not> shiftKey ev \<or> (timing = Eager \<and> lastSelectedIndexRef st = None)"
  shows "updateSelection timing ev i p st =
           st\<lparr> selectedFieldPaths :=
                 (if metaKey ev \<or> ctrlKey ev then
                    (if p |\<in>| selectedFieldPaths st then selectedFieldPaths st |-| {|p|}
                     else finsert p (selectedFieldPaths st))
                  else if fcard (selectedFieldPaths st) = 1 \<and> p |\<in>| selectedFieldPaths st
                  then selectedFieldPaths st
                  else {|p|}),
               lastSelectedIndexRef := Some i \<rparr>"
  using assms by (auto simp add: updateSelection_def selectionUpdater_def)

lemma updateSelection_anchor:
  assumes "filteredEntityFieldList st = Some l" and "l \<noteq> []"
  shows "lastSelectedIndexRef (updateSelection timing ev i p st) = Some i"
  using assms by (simp add: updateSelection_def Let_def)

lemma fcard_one_member: "fcard s = 1 \<Longrightarrow> p |\<in>| s \<Longrightarrow> s = {|p|}"
  using fcard_seteq [of "{|p|}" s] by (simp add: fcard_finsert_if)

text \<open>
  Claim C6. A plain click (no modifier key) on a row of the filtered list makes the
  selection the singleton of the clicked display name; when the selection already is that
  singleton it is left as it is. The plain branch of the updater does not read the
  anchor, so this holds whenever the updater runs.
\<close>

theorem plain_click_selects_only_row:
  assumes "filteredEntityFieldList st = Some l" and "i < length l"
    and "\<not> shiftKey ev" and "\<not> metaKey ev" and "\<not> ctrlKey ev"
  shows "selectedFieldPaths (updateSelection timing ev i p st) = {|p|}
         \<and> (selectedFieldPaths st = {|p|} \<longrightarrow>
              selectedFieldPaths (updateSelection timing ev i p st) = selectedFieldPaths st)"
proof -
  from assms(2) have ne: "l \<noteq> []" by auto
  have "selectedFieldPaths (updateSelection timing ev i p st) = {|p|}"
    using assms(3-5) fcard_one_member [of "selectedFieldPaths st" p]
    by (subst updateSelection_no_range [OF assms(1) ne]) auto
  then show ?thesis by simp
qed

theorem plain_click_selects_only_row_witness:
  "selectedFieldPaths (updateSelection Eager plainClick 0 ''x'' exampleState)
     = selectedFieldPaths exampleState
   \<and> selectedFieldPaths (updateSelection Queued plainClick 0 ''x'' exampleState)
     = selectedFieldPaths exampleState
   \<and> selectedFieldPaths (updateSelection Eager plainClick 1 ''a.b'' exampleState) = {|''a.b''|}
   \<and> selectedFieldPaths (updateSelection Queued plainClick 1 ''a.b'' exampleState) = {|''a.b''|}"
proof -
  let ?l = "[wrapField exampleFieldX, wrapField exampleFieldAB, wrapField exampleFieldCD]"
  have h: "filteredEntityFieldList exampleState = Some ?l" "\<not> shiftKey plainClick"
    "\<not> metaKey plainClick" "\<not> ctrlKey plainClick" "selectedFieldPaths exampleState = {|''x''|}"
    by (simp_all add: exampleState_def plainClick_def)
  have "0 < length ?l" "1 < length ?l" by simp_all
  from plain_click_selects_only_row [OF h(1) this(1) h(2-4), of Eager "''x''"]
    plain_click_selects_only_row [OF h(1) this(1) h(2-4), of Queued "''x''"]
    plain_click_selects_only_row [OF h(1) this(2) h(2-4), of Eager "''a.b''"]
    plain_click_selects_only_row [OF h(1) this(2) h(2-4), of Queued "''a.b''"] h(5)
  show ?thesis by simp
qed

text \<open>
  The two ways a shift click with an anchor can come out. When the updater runs inside
  the call it reads the anchor \<open>a\<close> of before the click and selects the rows from the
  smaller to the larger of \<open>a\<close> and \<open>i\<close>, the same set with the endpoints swapped. When
  it runs at the next render it reads the clicked index in place of the anchor and
  selects the clicked row alone.
\<close>

lemma eager_range_click_rows:
  assumes "filteredEntityFieldList st = Some l" and "a < length l" and "i < length l"
    and "shiftKey ev"
  shows "fset (selectedFieldPaths (updateSelection Eager ev i p (st\<lparr> lastSelectedIndexRef := Some a \<rparr>))) =
           {joinedNamedPath (l ! k) | k. min a i \<le> k \<and> k \<le> max a i}
         \<and> selectedFieldPaths (updateSelection Eager ev i p (st\<lparr> lastSelectedIndexRef := Some a \<rparr>)) =
             selectedFieldPaths (updateSelection Eager ev a q (st\<lparr> lastSelectedIndexRef := Some i \<rparr>))"
proof -
  from assms(2) have ne: "l \<noteq> []" by auto
  have fa: "filteredEntityFieldList (st\<lparr> lastSelectedIndexRef := Some a \<rparr>) = Some l"
    and fi: "filteredEntityFieldList (st\<lparr> lastSelectedIndexRef := Some i \<rparr>) = Some l"
    using assms(1) by simp_all
  have ua: "selectedFieldPaths (updateSelection Eager ev i p (st\<lparr> lastSelectedIndexRef := Some a \<rparr>)) =
      rangeLoop l (min a i) (max a i) {||}"
    by (subst updateSelection_eager_shift_anchor [OF fa ne assms(4), of a]) simp_all
  have ui: "selectedFieldPaths (updateSelection Eager ev a q (st\<lparr> lastSelectedIndexRef := Some i \<rparr>)) =
      rangeLoop l (min i a) (max i a) {||}"
    by (subst updateSelection_eager_shift_anchor [OF fi ne assms(4), of i]) simp_all
  show ?thesis
    unfolding ua ui using rangeLoop_rows [OF assms(2,3)]
    by (simp add: min.commute max.commute)
qed

lemma queued_range_click_row:
  assumes "filteredEntityFieldList st = Some l" and "i < length l" and "shiftKey ev"
  shows "selectedFieldPaths (updateSelection Queued ev i p st) = {|joinedNamedPath (l ! i)|}"
proof -
  from assms(2) have ne: "l \<noteq> []" by auto
  show ?thesis
    by (subst updateSelection_queued_shift [OF assms(1) ne assms(3)])
      (simp add: rangeLoop_single [OF assms(2)])
qed

text \<open>
  Claim C7 fails on the code when React queues the updater. On the filtered list of the
  three example fields (rows 0, 1, 2 named \<open>x\<close>, \<open>a.b\<close>, \<open>c.d\<close>), a shift click on row 1
  with the anchor on row 2 selects \<open>a.b\<close> alone, and a shift click on row 2 with the anchor
  on row 1 selects \<open>c.d\<close> alone: neither is the set of rows 1 to 2, and the two endpoint
  orders differ. The loop of lines 602-610 is written to collect the rows between anchor
  and target, but line 631 has replaced the anchor by the target before the loop runs.
\<close>

theorem range_click_queued_selects_clicked_row_only:
  "selectedFieldPaths
     (updateSelection Queued shiftClick 1 ''a.b'' (exampleState\<lparr> lastSelectedIndexRef := Some 2 \<rparr>))
     = {|''a.b''|}
   \<and> selectedFieldPaths
     (updateSelection Queued shiftClick 2 ''c.d'' (exampleState\<lparr> lastSelectedIndexRef := Some 1 \<rparr>))
     = {|''c.d''|}
   \<and> selectedFieldPaths
     (updateSelection Queued shiftClick 1 ''a.b'' (exampleState\<lparr> lastSelectedIndexRef := Some 2 \<rparr>))
     \<noteq> {|''a.b'', ''c.d''|}
   \<and> selectedFieldPaths
     (updateSelection Queued shiftClick 1 ''a.b'' (exampleState\<lparr> lastSelectedIndexRef := Some 2 \<rparr>))
     \<noteq> selectedFieldPaths
     (updateSelection Queued shiftClick 2 ''c.d'' (exampleState\<lparr> lastSelectedIndexRef := Some 1 \<rparr>))"
proof -
  let ?l = "[wrapField exampleFieldX, wrapField exampleFieldAB, wrapField exampleFieldCD]"
  have h: "filteredEntityFieldList (exampleState\<lparr> lastSelectedIndexRef := Some 2 \<rparr>) = Some ?l"
    "filteredEntityFieldList (exampleState\<lparr> lastSelectedIndexRef := Some 1 \<rparr>) = Some ?l"
    "1 < length ?l" "2 < length ?l" "shiftKey shiftClick"
    by (simp_all add: exampleState_def shiftClick_def)
  have n: "joinedNamedPath (?l ! 1) = ''a.b''" "joinedNamedPath (?l ! 2) = ''c.d''"
    by (simp_all add: wrapField_def exampleFieldAB_def exampleFieldCD_def)
  have a: "selectedFieldPaths
     (updateSelection Queued shiftClick 1 ''a.b'' (exampleState\<lparr> lastSelectedIndexRef := Some 2 \<rparr>))
     = {|''a.b''|}"
    using queued_range_click_row [OF h(1) h(3) h(5), of "''a.b''"] by (simp only: n)
  have b: "selectedFieldPaths
     (updateSelection Queued shiftClick 2 ''c.d'' (exampleState\<lparr> lastSelectedIndexRef := Some 1 \<rparr>))
     = {|''c.d''|}"
    using queued_range_click_row [OF h(2) h(4) h(5), of "''c.d''"] by (simp only: n)
  show ?thesis
    unfolding a b by simp
qed

text \<open>
  The range click as the specification states it for Claim C3 (the anchor after the click
  is the anchor before it) fails: with the anchor on row 0, a shift click on row 2 leaves
  the anchor on row 2, whenever the updater runs.
\<close>

theorem range_click_anchor_counterexample:
  "lastSelectedIndexRef exampleState = Some 0
   \<and> shiftKey shiftClick
   \<and> lastSelectedIndexRef (updateSelection Eager shiftClick 2 ''c.d'' exampleState) = Some 2
   \<and> lastSelectedIndexRef (updateSelection Queued shiftClick 2 ''c.d'' exampleState) = Some 2
   \<and> lastSelectedIndexRef (updateSelection Eager shiftClick 2 ''c.d'' exampleState)
       \<noteq> lastSelectedIndexRef exampleState
   \<and> lastSelectedIndexRef (updateSelection Queued shiftClick 2 ''c.d'' exampleState)
       \<noteq> lastSelectedIndexRef exampleState"
  by (simp add: updateSelection_def exampleState_def shiftClick_def)

text \<open>
  Claim C3, amended. A shift click on row \<open>i\<close> of the filtered list while an anchor
  \<open>a\<close> exists moves the anchor to \<open>i\<close>, the clicked row (\<open>updateSelection\<close> ends with
  the assignment of \<open>itemIndex\<close> to the anchor on every path past its guard). The
  selection of before the click is discarded: the selection after it is the same whatever
  was selected before, it holds the display name of the clicked row, and it holds only
  display names of rows between \<open>a\<close> and \<open>i\<close>. All this holds whenever the updater runs;
  which of the rows between \<open>a\<close> and \<open>i\<close> are selected is not stated here.
\<close>

theorem range_click_moves_anchor:
  assumes "filteredEntityFieldList st = Some l" and "i < length l"
    and "shiftKey ev" and "lastSelectedIndexRef st = Some a"
  shows "lastSelectedIndexRef (updateSelection timing ev i p st) = Some i
         \<and> selectedFieldPaths (updateSelection timing ev i p (st\<lparr> selectedFieldPaths := s \<rparr>)) =
             selectedFieldPaths (updateSelection timing ev i p st)
         \<and> joinedNamedPath (l ! i) |\<in>| selectedFieldPaths (updateSelection timing ev i p st)
         \<and> fset (selectedFieldPaths (updateSelection timing ev i p st)) \<subseteq>
             {joinedNamedPath (l ! k) | k. min a i \<le> k \<and> k \<le> max a i \<and> k < length l}"
proof -
  from assms(2) have ne: "l \<noteq> []" by auto
  have anchor: "lastSelectedIndexRef (updateSelection timing ev i p st) = Some i"
    by (rule updateSelection_anchor [OF assms(1) ne])
  have fs: "filteredEntityFieldList (st\<lparr> selectedFieldPaths := s \<rparr>) = Some l"
    and ls: "lastSelectedIndexRef (st\<lparr> selectedFieldPaths := s \<rparr>) = Some a"
    using assms(1,4) by simp_all
  show ?thesis
  proof (cases timing)
    case Eager
    have u: "selectedFieldPaths (updateSelection Eager ev i p st) =
        rangeLoop l (min a i) (max a i) {||}"
      by (subst updateSelection_eager_shift_anchor [OF assms(1) ne assms(3,4)]) simp
    have v: "selectedFieldPaths (updateSelection Eager ev i p (st\<lparr> selectedFieldPaths := s \<rparr>)) =
        rangeLoop l (min a i) (max a i) {||}"
      by (subst updateSelection_eager_shift_anchor [OF fs ne assms(3) ls]) simp
    have m: "joinedNamedPath (l ! i) \<in> fset (rangeLoop l (min a i) (max a i) {||})"
      unfolding rangeLoop_fset using assms(2) by auto
    from anchor m show ?thesis
      unfolding Eager u v by (simp add: rangeLoop_fset)
  next
    case Queued
    have u: "selectedFieldPaths (updateSelection Queued ev i p st) = {|joinedNamedPath (l ! i)|}"
      by (rule queued_range_click_row [OF assms(1-3)])
    have v: "selectedFieldPaths (updateSelection Queued ev i p (st\<lparr> selectedFieldPaths := s \<rparr>)) =
        {|joinedNamedPath (l ! i)|}"
      by (rule queued_range_click_row [OF fs assms(2,3)])
    have "\<exists>k. joinedNamedPath (l ! i) = joinedNamedPath (l ! k)
        \<and> min a i \<le> k \<and> k \<le> max a i \<and> k < length l"
      using assms(2) by (intro exI [of _ i]) simp
    with anchor show ?thesis
      unfolding Queued u v by simp
  qed
qed

theorem range_click_moves_anchor_witness:
  "lastSelectedIndexRef (updateSelection Eager shiftClick 2 ''c.d'' exampleState) = Some 2
   \<and> lastSelectedIndexRef (updateSelection Queued shiftClick 2 ''c.d'' exampleState) = Some 2
   \<and> ''c.d'' |\<in>| selectedFieldPaths (updateSelection Eager shiftClick 2 ''c.d'' exampleState)
   \<and> ''c.d'' |\<in>| selectedFieldPaths (updateSelection Queued shiftClick 2 ''c.d'' exampleState)"
proof -
  let ?l = "[wrapField exampleFieldX, wrapField exampleFieldAB, wrapField exampleFieldCD]"
  have h: "filteredEntityFieldList exampleState = Some ?l" "2 < length ?l" "shiftKey shiftClick"
    "lastSelectedIndexRef exampleState = Some 0"
    by (simp_all add: exampleState_def shiftClick_def)
  have n: "joinedNamedPath (?l ! 2) = ''c.d''"
    by (simp add: wrapField_def exampleFieldCD_def)
  note e = range_click_moves_anchor [OF h, of Eager "''c.d''" "{||}", unfolded n]
  note q = range_click_moves_anchor [OF h, of Queued "''c.d''" "{||}", unfolded n]
  from e q show ?thesis by blast
qed

text \<open>
  Claim C10. A shift click on a row when no anchor exists comes out as the plain click on
  that row: the clicked row becomes the anchor and, with neither control nor meta held,
  the selection becomes the singleton of the clicked display name. When the updater runs
  inside the call it finds no anchor, skips the range branch and gives the state that the
  same click without the shift key gives. When it runs at the next render it finds the
  clicked index in the ref and takes the range from the clicked row to itself, which for
  the display name of the clicked row is again the state of the plain click.
\<close>

theorem shift_click_without_anchor_is_plain:
  assumes "filteredEntityFieldList st = Some l" and "i < length l"
    and "shiftKey ev" and "lastSelectedIndexRef st = None"
  shows "updateSelection Eager ev i p st = updateSelection Eager (ev\<lparr> shiftKey := False \<rparr>) i p st
         \<and> lastSelectedIndexRef (updateSelection timing ev i p st) = Some i
         \<and> (\<not> metaKey ev \<and> \<not> ctrlKey ev \<longrightarrow>
              selectedFieldPaths (updateSelection Eager ev i p st) = {|p|})
         \<and> (\<not> metaKey ev \<and> \<not> ctrlKey ev \<and> p = joinedNamedPath (l ! i) \<longrightarrow>
              updateSelection timing ev i p st =
                updateSelection timing (ev\<lparr> shiftKey := False \<rparr>) i p st
              \<and> selectedFieldPaths (updateSelection timing ev i p st) = {|p|})"
proof -
  from assms(2) have ne: "l \<noteq> []" by auto
  let ?sel = "(if metaKey ev \<or> ctrlKey ev then
               (if p |\<in>| selectedFieldPaths st then selectedFieldPaths st |-| {|p|}
                else finsert p (selectedFieldPaths st))
             else if fcard (selectedFieldPaths st) = 1 \<and> p |\<in>| selectedFieldPaths st
             then selectedFieldPaths st
             else {|p|})"
  have u: "updateSelection Eager ev i p st =
      st\<lparr> selectedFieldPaths := ?sel, lastSelectedIndexRef := Some i \<rparr>"
    using assms(4) by (intro updateSelection_no_range [OF assms(1) ne]) simp
  have v: "updateSelection t (ev\<lparr> shiftKey := False \<rparr>) i p st =
      st\<lparr> selectedFieldPaths := ?sel, lastSelectedIndexRef := Some i \<rparr>" for t
  proof -
    have "\<not> shiftKey (ev\<lparr> shiftKey := False \<rparr>)
        \<or> (t = Eager \<and> lastSelectedIndexRef st = None)" by simp
    from updateSelection_no_range [OF assms(1) ne this, of i p]
    show ?thesis by simp
  qed
  have q: "updateSelection Queued ev i p st =
      st\<lparr> selectedFieldPaths := {|joinedNamedPath (l ! i)|}, lastSelectedIndexRef := Some i \<rparr>"
    by (simp only: updateSelection_queued_shift [OF assms(1) ne assms(3)]
        rangeLoop_single [OF assms(2)])
  have sel: "?sel = {|p|}" if k: "\<not> metaKey ev \<and> \<not> ctrlKey ev"
  proof (cases "fcard (selectedFieldPaths st) = 1 \<and> p |\<in>| selectedFieldPaths st")
    case True
    from k have nk: "\<not> (metaKey ev \<or> ctrlKey ev)" by simp
    from True have "selectedFieldPaths st = {|p|}"
      using fcard_one_member [of "selectedFieldPaths st" p] by blast
    moreover have "?sel = selectedFieldPaths st"
      using True by (simp only: nk if_False) simp
    ultimately show ?thesis by (simp only:)
  next
    case False
    from k have nk: "\<not> (metaKey ev \<or> ctrlKey ev)" by simp
    show ?thesis
      by (simp only: nk False if_False)
  qed
  have c1: "updateSelection Eager ev i p st = updateSelection Eager (ev\<lparr> shiftKey := False \<rparr>) i p st"
    by (simp only: u v)
  have c2: "lastSelectedIndexRef (updateSelection timing ev i p st) = Some i"
    by (rule updateSelection_anchor [OF assms(1) ne])
  have c3: "\<not> metaKey ev \<and> \<not> ctrlKey ev \<longrightarrow>
      selectedFieldPaths (updateSelection Eager ev i p st) = {|p|}"
  proof
    assume k: "\<not> metaKey ev \<and> \<not> ctrlKey ev"
    show "selectedFieldPaths (updateSelection Eager ev i p st) = {|p|}"
      by (simp only: u sel [OF k]) simp
  qed
  have c4: "\<not> metaKey ev \<and> \<not> ctrlKey ev \<and> p = joinedNamedPath (l ! i) \<longrightarrow>
      updateSelection timing ev i p st =
        updateSelection timing (ev\<lparr> shiftKey := False \<rparr>) i p st
      \<and> selectedFieldPaths (updateSelection timing ev i p st) = {|p|}"
  proof
    assume a: "\<not> metaKey ev \<and> \<not> ctrlKey ev \<and> p = joinedNamedPath (l ! i)"
    then have k: "\<not> metaKey ev \<and> \<not> ctrlKey ev" and n: "joinedNamedPath (l ! i) = p"
      by simp_all
    have w: "updateSelection timing ev i p st =
        st\<lparr> selectedFieldPaths := {|p|}, lastSelectedIndexRef := Some i \<rparr>"
    proof (cases timing)
      case Eager
      show ?thesis by (simp only: Eager u sel [OF k])
    next
      case Queued
      show ?thesis by (simp only: Queued q n)
    qed
    have x: "updateSelection timing (ev\<lparr> shiftKey := False \<rparr>) i p st =
        st\<lparr> selectedFieldPaths := {|p|}, lastSelectedIndexRef := Some i \<rparr>"
      by (simp only: v sel [OF k])
    show "updateSelection timing ev i p st =
        updateSelection timing (ev\<lparr> shiftKey := False \<rparr>) i p st
      \<and> selectedFieldPaths (updateSelection timing ev i p st) = {|p|}"
      by (simp only: w x) simp
  qed
  from c1 c2 c3 c4 show ?thesis by (intro conjI)
qed

theorem shift_click_without_anchor_is_plain_witness:
  "updateSelection Eager shiftClick 1 ''a.b'' (exampleState\<lparr> lastSelectedIndexRef := None \<rparr>)
     = updateSelection Eager plainClick 1 ''a.b'' (exampleState\<lparr> lastSelectedIndexRef := None \<rparr>)
   \<and> updateSelection Queued shiftClick 1 ''a.b'' (exampleState\<lparr> lastSelectedIndexRef := None \<rparr>)
     = updateSelection Queued plainClick 1 ''a.b'' (exampleState\<lparr> lastSelectedIndexRef := None \<rparr>)
   \<and> lastSelectedIndexRef
       (updateSelection Queued shiftClick 1 ''a.b'' (exampleState\<lparr> lastSelectedIndexRef := None \<rparr>)) = Some 1
   \<and> selectedFieldPaths
       (updateSelection Eager shiftClick 1 ''a.b'' (exampleState\<lparr> lastSelectedIndexRef := None \<rparr>)) = {|''a.b''|}
   \<and> selectedFieldPaths
       (updateSelection Queued shiftClick 1 ''a.b'' (exampleState\<lparr> lastSelectedIndexRef := None \<rparr>)) = {|''a.b''|}"
proof -
  let ?l = "[wrapField exampleFieldX, wrapField exampleFieldAB, wrapField exampleFieldCD]"
  let ?st = "exampleState\<lparr> lastSelectedIndexRef := None \<rparr>"
  have h: "filteredEntityFieldList ?st = Some ?l" "1 < length ?l" "shiftKey shiftClick"
    "lastSelectedIndexRef ?st = None"
    by (simp_all add: exampleState_def shiftClick_def)
  have e: "shiftClick\<lparr> shiftKey := False \<rparr> = plainClick"
    by (simp add: shiftClick_def plainClick_def)
  have k: "\<not> metaKey shiftClick" "\<not> ctrlKey shiftClick"
    by (simp_all add: shiftClick_def)
  have n: "''a.b'' = joinedNamedPath (?l ! 1)"
    by (simp add: wrapField_def exampleFieldAB_def)
  note t = shift_click_without_anchor_is_plain [OF h, of "''a.b''" Queued, unfolded e]
  from t k n show ?thesis by blast
qed


section \<open>Pruning the selection\<close>

lemma pruneUpdater_eq: "pruneUpdater av prev = ffilter (\<lambda>p. p |\<in>| av) prev"
  by (auto simp: pruneUpdater_def Let_def)

lemma pruneEffect_selection:
  "selectedFieldPaths (pruneEffect st) =
     ffilter (\<lambda>p. p |\<in>| fset_of_list (map joinedNamedPath (visibleFields (filteredEntityFieldList st))))
       (selectedFieldPaths st)"
  by (auto simp: pruneEffect_def pruneUpdater_eq visibleFields_def split: option.splits)

text \<open>
  Claim C5. After the effect that follows an update of the filtered list, the selection
  holds exactly its former members that are display names of fields of the new list (an
  undefined list counting as empty): the others are removed, none is added; and when no
  member is a display name of the new list the selection is empty.
\<close>

theorem prune_keeps_exactly_present_members:
  "fset (selectedFieldPaths (pruneEffect st)) =
     {p \<in> fset (selectedFieldPaths st).
        p \<in> joinedNamedPath ` set (visibleFields (filteredEntityFieldList st))}
   \<and> (fset (selectedFieldPaths st) \<inter> joinedNamedPath ` set (visibleFields (filteredEntityFieldList st)) = {}
        \<longrightarrow> selectedFieldPaths (pruneEffect st) = {||})"
proof -
  have a: "fset (selectedFieldPaths (pruneEffect st)) =
     {p \<in> fset (selectedFieldPaths st).
        p \<in> joinedNamedPath ` set (visibleFields (filteredEntityFieldList st))}"
    by (auto simp: pruneEffect_selection fset_of_list.rep_eq)
  have b: "fset (selectedFieldPaths st) \<inter> joinedNamedPath ` set (visibleFields (filteredEntityFieldList st)) = {}
        \<longrightarrow> selectedFieldPaths (pruneEffect st) = {||}"
  proof
    assume "fset (selectedFieldPaths st) \<inter> joinedNamedPath ` set (visibleFields (filteredEntityFieldList st)) = {}"
    with a have "fset (selectedFieldPaths (pruneEffect st)) = fset {||}" by auto
    then show "selectedFieldPaths (pruneEffect st) = {||}" by (simp only: fset_inject)
  qed
  from a b show ?thesis by blast
qed

theorem prune_keeps_exactly_present_members_witness:
  "selectedFieldPaths
     (pruneEffect (exampleState\<lparr> filteredEntityFieldList := Some [wrapField exampleFieldAB],
                                 selectedFieldPaths := {|''a.b'', ''c.d''|} \<rparr>)) = {|''a.b''|}
   \<and> selectedFieldPaths
     (pruneEffect (exampleState\<lparr> filteredEntityFieldList := Some [wrapField exampleFieldX],
                                 selectedFieldPaths := {|''a.b'', ''c.d''|} \<rparr>)) = {||}"
proof -
  let ?s1 = "exampleState\<lparr> filteredEntityFieldList := Some [wrapField exampleFieldAB],
                                 selectedFieldPaths := {|''a.b'', ''c.d''|} \<rparr>"
  let ?s2 = "exampleState\<lparr> filteredEntityFieldList := Some [wrapField exampleFieldX],
                                 selectedFieldPaths := {|''a.b'', ''c.d''|} \<rparr>"
  have n1: "joinedNamedPath ` set (visibleFields (filteredEntityFieldList ?s1)) = {''a.b''}"
    by (simp add: visibleFields_def wrapField_def exampleFieldAB_def)
  have n2: "joinedNamedPath ` set (visibleFields (filteredEntityFieldList ?s2)) = {''x''}"
    by (simp add: visibleFields_def wrapField_def exampleFieldX_def)
  have "fset (selectedFieldPaths (pruneEffect ?s1)) = fset {|''a.b''|}"
    using prune_keeps_exactly_present_members [of ?s1] unfolding n1 by auto
  moreover have "selectedFieldPaths (pruneEffect ?s2) = {||}"
    using prune_keeps_exactly_present_members [of ?s2] unfolding n2 by simp
  ultimately show ?thesis
    by (simp only: fset_inject simp_thms)
qed


section \<open>Handle navigation\<close>

lemma updateSelection_entity:
  "demSelectedEntityIndex (updateSelection timing ev i p st) = demSelectedEntityIndex st"
  by (simp add: updateSelection_def Let_def split: option.splits)

text \<open>
  Claim C9. A click on row \<open>i\<close> of the filtered list always does what
  \<open>updateSelection\<close> does to the selection and the anchor. A plain click on a field
  encoded as a handle whose value is valid also toggles the selected entity to the index
  the handle decodes to (to none when that index is the one selected). A click with shift,
  control or meta held, or on a field that is no handle or whose handle is invalid, does
  nothing beyond \<open>updateSelection\<close> and leaves the selected entity as it was. The
  navigation does not depend on when the updater of the selection runs.
\<close>

theorem handle_click_navigation:
  assumes "filteredEntityFieldList st = Some l" and "i < length l"
  shows "selectedFieldPaths (onRowClick toNumber isValid toIndex timing ev i st) =
           selectedFieldPaths (updateSelection timing ev i (joinedNamedPath (l ! i)) st)
         \<and> lastSelectedIndexRef (onRowClick toNumber isValid toIndex timing ev i st) =
             lastSelectedIndexRef (updateSelection timing ev i (joinedNamedPath (l ! i)) st)
         \<and> (\<not> shiftKey ev \<and> \<not> metaKey ev \<and> \<not> ctrlKey ev
              \<and> startsWith (encodedAs (inner (l ! i))) ''CHandle''
              \<and> isValid (toNumber (val (inner (l ! i))))
            \<longrightarrow> demSelectedEntityIndex (onRowClick toNumber isValid toIndex timing ev i st) =
                  (if demSelectedEntityIndex st = Some (toIndex (toNumber (val (inner (l ! i)))))
                   then None
                   else Some (toIndex (toNumber (val (inner (l ! i)))))))
         \<and> (shiftKey ev \<or> metaKey ev \<or> ctrlKey ev
              \<or> \<not> (startsWith (encodedAs (inner (l ! i))) ''CHandle''
                     \<and> isValid (toNumber (val (inner (l ! i)))))
            \<longrightarrow> onRowClick toNumber isValid toIndex timing ev i st =
                  updateSelection timing ev i (joinedNamedPath (l ! i)) st
                \<and> demSelectedEntityIndex (onRowClick toNumber isValid toIndex timing ev i st) =
                    demSelectedEntityIndex st)"
  using assms
  by (auto simp: onRowClick_def handleFieldClick_def linkedEntIdx_def Let_def updateSelection_entity)

theorem handle_click_navigation_witness:
  "demSelectedEntityIndex
     (onRowClick exampleToNumber (\<lambda>n. 0 < n) (\<lambda>n. n mod 16384) Eager plainClick 1 exampleState) = Some 42
   \<and> demSelectedEntityIndex
     (onRowClick exampleToNumber (\<lambda>n. 0 < n) (\<lambda>n. n mod 16384) Queued plainClick 1
        (exampleState\<lparr> demSelectedEntityIndex := Some 42 \<rparr>)) = None
   \<and> demSelectedEntityIndex
     (onRowClick exampleToNumber (\<lambda>n. 0 < n) (\<lambda>n. n mod 16384) Queued shiftClick 1 exampleState) = Some 1
   \<and> demSelectedEntityIndex
     (onRowClick exampleToNumber (\<lambda>n. 0 < n) (\<lambda>n. n mod 16384) Eager plainClick 2 exampleState) = Some 1"
proof -
  let ?l = "[wrapField exampleFieldX, wrapField exampleFieldAB, wrapField exampleFieldCD]"
  let ?st = "exampleState\<lparr> demSelectedEntityIndex := Some 42 \<rparr>"
  have h: "filteredEntityFieldList exampleState = Some ?l" "1 < length ?l" "2 < length ?l"
    "filteredEntityFieldList ?st = Some ?l"
    by (simp_all add: exampleState_def)
  have e: "\<not> shiftKey plainClick" "\<not> metaKey plainClick" "\<not> ctrlKey plainClick" "shiftKey shiftClick"
    by (simp_all add: plainClick_def shiftClick_def)
  have ab: "startsWith (encodedAs (inner (?l ! 1))) ''CHandle''"
    "(0::nat) < exampleToNumber (val (inner (?l ! 1)))"
    "exampleToNumber (val (inner (?l ! 1))) mod 16384 = 42"
    by (simp_all add: startsWith_def wrapField_def exampleFieldAB_def exampleToNumber_def)
  have cd: "\<not> startsWith (encodedAs (inner (?l ! 2))) ''CHandle''"
    by (simp add: startsWith_def wrapField_def exampleFieldCD_def)
  have d: "demSelectedEntityIndex exampleState = Some 1" "demSelectedEntityIndex ?st = Some 42"
    by (simp_all add: exampleState_def)
  from handle_click_navigation [OF h(1,2), of exampleToNumber "\<lambda>n. 0 < n" "\<lambda>n. n mod 16384" Eager plainClick]
    e ab d
  have a1: "demSelectedEntityIndex
     (onRowClick exampleToNumber (\<lambda>n. 0 < n) (\<lambda>n. n mod 16384) Eager plainClick 1 exampleState) = Some 42"
    by simp
  from handle_click_navigation [OF h(4,2), of exampleToNumber "\<lambda>n. 0 < n" "\<lambda>n. n mod 16384" Queued plainClick]
    e ab d
  have a2: "demSelectedEntityIndex
     (onRowClick exampleToNumber (\<lambda>n. 0 < n) (\<lambda>n. n mod 16384) Queued plainClick 1 ?st) = None"
    by simp
  from handle_click_navigation [OF h(1,2), of exampleToNumber "\<lambda>n. 0 < n" "\<lambda>n. n mod 16384" Queued shiftClick]
    e d
  have a3: "demSelectedEntityIndex
     (onRowClick exampleToNumber (\<lambda>n. 0 < n) (\<lambda>n. n mod 16384) Queued shiftClick 1 exampleState) = Some 1"
    by (simp add: updateSelection_entity)
  from handle_click_navigation [OF h(1,3), of exampleToNumber "\<lambda>n. 0 < n" "\<lambda>n. n mod 16384" Eager plainClick]
    cd d
  have a4: "demSelectedEntityIndex
     (onRowClick exampleToNumber (\<lambda>n. 0 < n) (\<lambda>n. n mod 16384) Eager plainClick 2 exampleState) = Some 1"
    by (simp add: updateSelection_entity)
  from a1 a2 a3 a4 show ?thesis by blast
qed


section \<open>Field-list export\<close>

lemma join_terminated:
  "xs \<noteq> [] \<Longrightarrow> join sep xs @ sep = concat (map (\<lambda>x. x @ sep) xs)"
  by (induction sep xs rule: join.induct) simp_all

lemma exportableFields_no_selection:
  "selectedFieldPaths st = {||} \<Longrightarrow> exportableFields st = visibleFields (filteredEntityFieldList st)"
  by (simp add: exportableFields_def selectedFields_def split: option.splits)

lemma exportableFields_selection:
  assumes "selectedFieldPaths st \<noteq> {||}"
    and "selectedFieldPaths st |\<subseteq>|
           fset_of_list (map joinedNamedPath (visibleFields (filteredEntityFieldList st)))"
  shows "exportableFields st =
           filter (\<lambda>f. joinedNamedPath f |\<in>| selectedFieldPaths st)
             (visibleFields (filteredEntityFieldList st))"
proof -
  from assms(1) obtain p where p: "p |\<in>| selectedFieldPaths st" by auto
  with assms(2) have "p |\<in>| fset_of_list (map joinedNamedPath (visibleFields (filteredEntityFieldList st)))"
    by auto
  then obtain f where f: "f \<in> set (visibleFields (filteredEntityFieldList st))" "joinedNamedPath f = p"
    by (auto simp: fset_of_list.rep_eq)
  then obtain l where l: "filteredEntityFieldList st = Some l"
    by (cases "filteredEntityFieldList st") (auto simp: visibleFields_def)
  with f p have "filter (\<lambda>f. joinedNamedPath f |\<in>| selectedFieldPaths st) l \<noteq> []"
    by (auto simp: visibleFields_def filter_empty_conv)
  with assms(1) l show ?thesis
    by (simp add: exportableFields_def selectedFields_def visibleFields_def)
qed

lemma exportableFields_sorted:
  "fieldsSorted (visibleFields (filteredEntityFieldList st)) \<Longrightarrow> fieldsSorted (exportableFields st)"
  by (auto simp: exportableFields_def selectedFields_def visibleFields_def fieldsSorted_def
      sorted_wrt_filter Let_def split: option.splits)

text \<open>
  Claim C8. The plain-text export of the field list has one line \<open>path: value\<close> per
  exported field, each ended by a line feed, and none when there is nothing to export.
  With an empty selection the exported fields are the filtered list, which under an active
  filter is the entries that pass it, not all entries. With a non-empty selection, all of
  whose members name fields of the filtered list (the invariant that pruning and the
  click handlers keep), they are the selected fields in the order of the filtered list.
  The exported fields are in display order whenever the filtered list is.
\<close>

theorem field_export_raw_rows:
  "(selectedFieldPaths st = {||} \<longrightarrow>
      exportableFields st = visibleFields (filteredEntityFieldList st))
   \<and> (selectedFieldPaths st = {||}
        \<and> filteredEntityFieldList st = handleFilterUpdate (Some entries) (Some searchCmpFn) \<longrightarrow>
      exportableFields st = filter (\<lambda>entry. searchCmpFn (joinedNamedPath entry)) entries)
   \<and> (selectedFieldPaths st \<noteq> {||}
        \<and> selectedFieldPaths st |\<subseteq>|
            fset_of_list (map joinedNamedPath (visibleFields (filteredEntityFieldList st))) \<longrightarrow>
      exportableFields st =
        filter (\<lambda>f. joinedNamedPath f |\<in>| selectedFieldPaths st)
          (visibleFields (filteredEntityFieldList st)))
   \<and> (fieldsSorted (visibleFields (filteredEntityFieldList st)) \<longrightarrow>
        fieldsSorted (exportableFields st))
   \<and> handleExportRaw st =
       (if exportableFields st = [] then None
        else Some (concat (map (\<lambda>field. joinedNamedPath field @ '': '' @ val (inner field) @ [CHR 0x0A])
                             (exportableFields st))))"
proof -
  have b: "selectedFieldPaths st = {||}
        \<and> filteredEntityFieldList st = handleFilterUpdate (Some entries) (Some searchCmpFn) \<longrightarrow>
      exportableFields st = filter (\<lambda>entry. searchCmpFn (joinedNamedPath entry)) entries"
    by (simp add: exportableFields_no_selection handleFilterUpdate_def visibleFields_def)
  have e: "handleExportRaw st =
       (if exportableFields st = [] then None
        else Some (concat (map (\<lambda>field. joinedNamedPath field @ '': '' @ val (inner field) @ [CHR 0x0A])
                             (exportableFields st))))"
    by (simp add: handleExportRaw_def join_terminated rawLine_def comp_def)
  from b e exportableFields_no_selection [of st] exportableFields_selection [of st]
    exportableFields_sorted [of st]
  show ?thesis by blast
qed

theorem field_export_raw_rows_witness:
  "handleExportRaw exampleState = Some (''x: 5'' @ [CHR 0x0A])
   \<and> handleExportRaw
       (exampleState\<lparr> selectedFieldPaths := {||},
           filteredEntityFieldList :=
             handleFilterUpdate
               (Some [wrapField exampleFieldX, wrapField exampleFieldAB, wrapField exampleFieldCD])
               (Some (\<lambda>n. n \<noteq> ''x'')) \<rparr>)
     = Some (''a.b: 42'' @ [CHR 0x0A] @ ''c.d: true'' @ [CHR 0x0A])"
proof -
  let ?l = "[wrapField exampleFieldX, wrapField exampleFieldAB, wrapField exampleFieldCD]"
  let ?s2 = "exampleState\<lparr> selectedFieldPaths := {||},
           filteredEntityFieldList := handleFilterUpdate (Some ?l) (Some (\<lambda>n. n \<noteq> ''x'')) \<rparr>"
  have v1: "visibleFields (filteredEntityFieldList exampleState) = ?l"
    by (simp add: exampleState_def visibleFields_def)
  have s1: "selectedFieldPaths exampleState = {|''x''|}"
    by (simp add: exampleState_def)
  have h1: "selectedFieldPaths exampleState \<noteq> {||}
      \<and> selectedFieldPaths exampleState |\<subseteq>|
            fset_of_list (map joinedNamedPath (visibleFields (filteredEntityFieldList exampleState)))"
    unfolding v1 s1 by (simp add: wrapField_def exampleFieldX_def)
  have srt: "fieldsSorted (visibleFields (filteredEntityFieldList exampleState))"
    unfolding v1
    by (simp add: fieldsSorted_def compareFields_def compareLoop.simps wrapField_def
        exampleFieldX_def exampleFieldAB_def exampleFieldCD_def)
  note t1 = field_export_raw_rows [of exampleState ?l "\<lambda>n. n \<noteq> ''x''"]
  from t1 h1 have x1: "exportableFields exampleState =
      filter (\<lambda>f. joinedNamedPath f |\<in>| selectedFieldPaths exampleState)
        (visibleFields (filteredEntityFieldList exampleState))"
    by blast
  have x1': "exportableFields exampleState = [wrapField exampleFieldX]"
    unfolding x1 v1 s1
    by (simp add: wrapField_def exampleFieldX_def exampleFieldAB_def exampleFieldCD_def)
  from t1 srt have "fieldsSorted (exportableFields exampleState)" by blast
  from t1 have "handleExportRaw exampleState =
       (if exportableFields exampleState = [] then None
        else Some (concat (map (\<lambda>field. joinedNamedPath field @ '': '' @ val (inner field) @ [CHR 0x0A])
                             (exportableFields exampleState))))"
    by blast
  then have r1: "handleExportRaw exampleState = Some (''x: 5'' @ [CHR 0x0A])"
    unfolding x1' by (simp add: wrapField_def exampleFieldX_def)
  have h2: "selectedFieldPaths ?s2 = {||}
      \<and> filteredEntityFieldList ?s2 = handleFilterUpdate (Some ?l) (Some (\<lambda>n. n \<noteq> ''x''))"
    by simp
  note t2 = field_export_raw_rows [of ?s2 ?l "\<lambda>n. n \<noteq> ''x''"]
  from t2 h2 have x2: "exportableFields ?s2 = filter (\<lambda>entry. joinedNamedPath entry \<noteq> ''x'') ?l"
    by blast
  have x2': "exportableFields ?s2 = [wrapField exampleFieldAB, wrapField exampleFieldCD]"
    unfolding x2
    by (simp add: wrapField_def exampleFieldX_def exampleFieldAB_def exampleFieldCD_def)
  from t2 have "handleExportRaw ?s2 =
       (if exportableFields ?s2 = [] then None
        else Some (concat (map (\<lambda>field. joinedNamedPath field @ '': '' @ val (inner field) @ [CHR 0x0A])
                             (exportableFields ?s2))))"
    by blast
  then have r2: "handleExportRaw ?s2 = Some (''a.b: 42'' @ [CHR 0x0A] @ ''c.d: true'' @ [CHR 0x0A])"
    unfolding x2' by (simp add: wrapField_def exampleFieldAB_def exampleFieldCD_def)
  from r1 r2 show ?thesis by blast
qed


section \<open>The path column orders like the paths\<close>

declare toString.simps [simp del]

lemma of_char_digitChar: "d < 10 \<Longrightarrow> of_char (digitChar d) = 48 + d"
  by (simp add: digitChar_def)

lemma digitChar_less: "a < 10 \<Longrightarrow> b < 10 \<Longrightarrow> (digitChar a < digitChar b) = (a < b)"
  by (simp add: less_char_def of_char_digitChar)

lemma blank_less_digitChar: "d < 10 \<Longrightarrow> CHR '' '' < digitChar d"
  by (simp add: less_char_def of_char_digitChar)

lemma digitChar_not_less_blank: "d < 10 \<Longrightarrow> \<not> digitChar d < CHR '' ''"
  by (simp add: less_char_def of_char_digitChar)

lemma padStart_snoc: "padStart (Suc w) c (s @ [d]) = padStart w c s @ [d]"
  by (simp add: padStart_def)

lemma padStart_Suc:
  "padStart (Suc w) (CHR '' '') (toString n) = blankPadded w (n div 10) @ [digitChar (n mod 10)]"
proof (cases "n < 10")
  case True
  then show ?thesis
    by (subst toString.simps) (simp add: padStart_def blankPadded_def)
next
  case False
  then have "toString n = toString (n div 10) @ [digitChar (n mod 10)]"
    by (subst toString.simps) simp
  moreover from False have "n div 10 \<noteq> 0" by simp
  ultimately show ?thesis
    by (simp add: padStart_snoc blankPadded_def)
qed

lemma blankPadded_Suc:
  "blankPadded (Suc w) k =
     blankPadded w (k div 10) @ [if k = 0 then CHR '' '' else digitChar (k mod 10)]"
proof (cases "k = 0")
  case True
  then show ?thesis
    by (simp add: blankPadded_def replicate_append_same)
next
  case False
  then show ?thesis
    using padStart_Suc [of w k] by (simp add: blankPadded_def)
qed

lemma length_blankPadded: "k < 10 ^ w \<Longrightarrow> length (blankPadded w k) = w"
proof (induction w arbitrary: k)
  case 0
  then show ?case by (simp add: blankPadded_def)
next
  case (Suc w)
  from Suc.prems have "k div 10 < 10 ^ w" by (simp add: less_mult_imp_div_less mult.commute)
  with Suc.IH show ?case by (simp add: blankPadded_Suc)
qed

lemma append_less_same_length:
  fixes xs ys :: "'a::linorder list"
  shows "length xs = length ys \<Longrightarrow> (xs @ us < ys @ vs) = (xs < ys \<or> xs = ys \<and> us < vs)"
  by (induction xs ys rule: list_induct2) auto

lemma decimal_less_iff:
  fixes a b c d :: nat
  shows "b < 10 \<Longrightarrow> d < 10 \<Longrightarrow> (10 * a + b < 10 * c + d) = (a < c \<or> a = c \<and> b < d)"
  by arith

lemma div_mod_less_iff:
  fixes k m :: nat
  shows "(k < m) = (k div 10 < m div 10 \<or> k div 10 = m div 10 \<and> k mod 10 < m mod 10)"
proof -
  have "(k < m) = (10 * (k div 10) + k mod 10 < 10 * (m div 10) + m mod 10)"
    by (simp only: mult_div_mod_eq)
  also have "\<dots> = (k div 10 < m div 10 \<or> k div 10 = m div 10 \<and> k mod 10 < m mod 10)"
    by (rule decimal_less_iff) simp_all
  finally show ?thesis .
qed

lemma blankPadded_less:
  "k < 10 ^ w \<Longrightarrow> m < 10 ^ w \<Longrightarrow> (blankPadded w k < blankPadded w m) = (k < m)"
proof (induction w arbitrary: k m)
  case 0
  then show ?case by (simp add: blankPadded_def)
next
  case (Suc w)
  let ?k = "k div 10" and ?m = "m div 10"
  from Suc.prems have b: "?k < 10 ^ w" "?m < 10 ^ w"
    by (simp_all add: less_mult_imp_div_less mult.commute)
  have less: "(blankPadded w ?k < blankPadded w ?m) = (?k < ?m)"
    using Suc.IH [OF b] .
  have eq: "(blankPadded w ?k = blankPadded w ?m) = (?k = ?m)"
    using Suc.IH [OF b] Suc.IH [OF b(2) b(1)] by (metis less_irrefl linorder_neqE_nat)
  have len: "length (blankPadded w ?k) = length (blankPadded w ?m)"
    using b by (simp add: length_blankPadded)
  have last: "?k = ?m \<Longrightarrow>
      ((if k = 0 then CHR '' '' else digitChar (k mod 10))
        < (if m = 0 then CHR '' '' else digitChar (m mod 10))) = (k mod 10 < m mod 10)"
    by (auto simp: digitChar_less blank_less_digitChar digitChar_not_less_blank)
  have "(blankPadded (Suc w) k < blankPadded (Suc w) m) =
      (?k < ?m \<or> ?k = ?m \<and>
        (if k = 0 then CHR '' '' else digitChar (k mod 10))
          < (if m = 0 then CHR '' '' else digitChar (m mod 10)))"
    by (simp only: blankPadded_Suc append_less_same_length [OF len] less eq Cons_less_Cons
        not_less_Nil simp_thms)
  also have "\<dots> = (?k < ?m \<or> ?k = ?m \<and> k mod 10 < m mod 10)"
    using last by blast
  also have "\<dots> = (k < m)"
    by (rule div_mod_less_iff [symmetric])
  finally show ?case .
qed

lemma key_less:
  assumes "n < 10000" and "m < 10000"
  shows "(padStart 4 (CHR '' '') (toString n) < padStart 4 (CHR '' '') (toString m)) = (n < m)"
proof -
  let ?k = "n div 10" and ?m = "m div 10"
  from assms have b: "?k < 10 ^ 3" "?m < 10 ^ 3" by simp_all
  have less: "(blankPadded 3 ?k < blankPadded 3 ?m) = (?k < ?m)"
    using blankPadded_less [OF b] .
  have eq: "(blankPadded 3 ?k = blankPadded 3 ?m) = (?k = ?m)"
    using blankPadded_less [OF b] blankPadded_less [OF b(2) b(1)]
    by (metis less_irrefl linorder_neqE_nat)
  have len: "length (blankPadded 3 ?k) = length (blankPadded 3 ?m)"
    using b by (simp add: length_blankPadded)
  have four: "(4::nat) = Suc 3" by simp
  have "(padStart 4 (CHR '' '') (toString n) < padStart 4 (CHR '' '') (toString m)) =
      (?k < ?m \<or> ?k = ?m \<and> digitChar (n mod 10) < digitChar (m mod 10))"
    by (simp only: four padStart_Suc append_less_same_length [OF len] less eq Cons_less_Cons
        not_less_Nil simp_thms)
  also have "\<dots> = (?k < ?m \<or> ?k = ?m \<and> n mod 10 < m mod 10)"
    by (simp add: digitChar_less)
  also have "\<dots> = (n < m)"
    by (rule div_mod_less_iff [symmetric])
  finally show ?thesis .
qed

lemma key_eq:
  assumes "n < 10000" and "m < 10000"
  shows "(padStart 4 (CHR '' '') (toString n) = padStart 4 (CHR '' '') (toString m)) = (n = m)"
  using key_less [OF assms] key_less [OF assms(2) assms(1)]
  by (metis less_irrefl linorder_neqE_nat)

lemma length_key: "n < 10000 \<Longrightarrow> length (padStart 4 (CHR '' '') (toString n)) = 4"
proof -
  assume "n < 10000"
  then have "n div 10 < 10 ^ 3" by simp
  then have "length (blankPadded 3 (n div 10)) = 3" by (rule length_blankPadded)
  moreover have "(4::nat) = Suc 3" by simp
  ultimately show ?thesis by (simp only: padStart_Suc) simp
qed

lemma pathKey_less:
  "\<forall>n \<in> set pa. n < 10000 \<Longrightarrow> \<forall>n \<in> set pb. n < 10000 \<Longrightarrow> (pathKey pa < pathKey pb) = (pa < pb)"
proof (induction pa arbitrary: pb)
  case Nil
  show ?case
  proof (cases pb)
    case Nil
    then show ?thesis by (simp add: pathKey_def)
  next
    case (Cons y ys)
    with Nil.prems have "length (padStart 4 (CHR '' '') (toString y)) = 4"
      by (simp add: length_key)
    then have "pathKey pb \<noteq> []"
      using Cons by (auto simp: pathKey_def)
    with Cons show ?thesis
      by (cases "pathKey pb") (simp_all add: pathKey_def)
  qed
next
  case (Cons x xs)
  show ?case
  proof (cases pb)
    case Nil
    then show ?thesis by (simp add: pathKey_def)
  next
    case pb: (Cons y ys)
    from Cons.prems pb have xy: "x < 10000" "y < 10000"
      and r: "\<forall>n \<in> set xs. n < 10000" "\<forall>n \<in> set ys. n < 10000"
      by simp_all
    have len: "length (padStart 4 (CHR '' '') (toString x)) = length (padStart 4 (CHR '' '') (toString y))"
      using xy by (simp add: length_key)
    have c: "pathKey (x # xs) = padStart 4 (CHR '' '') (toString x) @ pathKey xs"
      "pathKey (y # ys) = padStart 4 (CHR '' '') (toString y) @ pathKey ys"
      by (simp_all add: pathKey_def)
    show ?thesis
      unfolding pb c
      by (simp only: append_less_same_length [OF len] key_less [OF xy] key_eq [OF xy]
          Cons.IH [OF r] Cons_less_Cons)
  qed
qed

lemma pathKey_eq:
  assumes "\<forall>n \<in> set pa. n < 10000" and "\<forall>n \<in> set pb. n < 10000"
  shows "(pathKey pa = pathKey pb) = (pa = pb)"
  using pathKey_less [OF assms] pathKey_less [OF assms(2) assms(1)]
  by (metis less_irrefl linorder_neqE)

lemma joinedPath_wrapField: "joinedPath (wrapField f) = pathKey (path f)"
  by (simp add: wrapField_def pathKey_def)

lemma path_wrapField: "path (inner (wrapField f)) = path f"
  by (simp add: wrapField_def)

text \<open>
  The key as the specification states it for Claim C4 (each path integer padded with
  zeros) is not what the code builds: for the path \<open>[0]\<close> the code gives three blanks and
  the digit 0, the specification's wording gives \<open>0000\<close>.
\<close>

theorem sort_key_zero_padded_counterexample:
  "joinedPath (wrapField exampleFieldX) = ''   0''
   \<and> specSortKey (path exampleFieldX) = ''0000''
   \<and> joinedPath (wrapField exampleFieldX) \<noteq> specSortKey (path (inner (wrapField exampleFieldX)))"
  by code_simp

text \<open>
  Claim C4, amended. The string derived from a field's path is the concatenation of its
  path integers in decimal, each padded on the left with blanks to four characters. For
  two fields all of whose path integers are below 10000, the strings compare (as strings,
  character by character, a proper prefix first) exactly as the comparator of the sort
  orders the fields, and are equal exactly when the comparator gives zero.
\<close>

theorem joinedPath_blank_padded_order:
  "joinedPath (wrapField f) =
     concat (map (\<lambda>part. replicate (4 - length (toString part)) (CHR '' '') @ toString part) (path f))
   \<and> ((\<forall>n \<in> set (path a) \<union> set (path b). n < 10000) \<longrightarrow>
        (joinedPath (wrapField a) < joinedPath (wrapField b)) =
          (compareFields (wrapField a) (wrapField b) < 0)
        \<and> (joinedPath (wrapField a) = joinedPath (wrapField b)) =
          (compareFields (wrapField a) (wrapField b) = 0))"
proof -
  have shape: "joinedPath (wrapField f) =
     concat (map (\<lambda>part. replicate (4 - length (toString part)) (CHR '' '') @ toString part) (path f))"
    by (simp add: wrapField_def padStart_def)
  have ord: "(\<forall>n \<in> set (path a) \<union> set (path b). n < 10000) \<longrightarrow>
        (joinedPath (wrapField a) < joinedPath (wrapField b)) =
          (compareFields (wrapField a) (wrapField b) < 0)
        \<and> (joinedPath (wrapField a) = joinedPath (wrapField b)) =
          (compareFields (wrapField a) (wrapField b) = 0)"
  proof
    assume "\<forall>n \<in> set (path a) \<union> set (path b). n < 10000"
    then have b: "\<forall>n \<in> set (path a). n < 10000" "\<forall>n \<in> set (path b). n < 10000"
      by auto
    show "(joinedPath (wrapField a) < joinedPath (wrapField b)) =
          (compareFields (wrapField a) (wrapField b) < 0)
        \<and> (joinedPath (wrapField a) = joinedPath (wrapField b)) =
          (compareFields (wrapField a) (wrapField b) = 0)"
      by (simp only: joinedPath_wrapField pathKey_less [OF b] pathKey_eq [OF b]
          compareFields_less compareFields_zero path_wrapField simp_thms)
  qed
  from shape ord show ?thesis by (rule conjI)
qed

theorem joinedPath_blank_padded_order_witness:
  "joinedPath (wrapField exampleFieldCD) = ''   2  10''
   \<and> joinedPath (wrapField exampleFieldAB) = ''   0   1''
   \<and> joinedPath (wrapField exampleFieldAB) < joinedPath (wrapField exampleFieldCD)
   \<and> compareFields (wrapField exampleFieldAB) (wrapField exampleFieldCD) < 0"
proof -
  have b: "\<forall>n \<in> set (path exampleFieldAB) \<union> set (path exampleFieldCD). n < 10000"
    by (simp add: exampleFieldAB_def exampleFieldCD_def)
  have c: "compareFields (wrapField exampleFieldAB) (wrapField exampleFieldCD) < 0"
    by (simp add: compareFields_def compareLoop.simps wrapField_def exampleFieldAB_def exampleFieldCD_def)
  have v: "concat (map (\<lambda>part. replicate (4 - length (toString part)) (CHR '' '') @ toString part)
        (path exampleFieldCD)) = ''   2  10''"
    "concat (map (\<lambda>part. replicate (4 - length (toString part)) (CHR '' '') @ toString part)
        (path exampleFieldAB)) = ''   0   1''"
    by code_simp+
  from joinedPath_blank_padded_order [of exampleFieldCD exampleFieldAB exampleFieldCD]
    joinedPath_blank_padded_order [of exampleFieldAB exampleFieldAB exampleFieldCD] b c v
  show ?thesis by metis
qed

end
